theory Spec2Isabelle
  imports Complex_Main "HOL-Library.Word"
begin

section \<open>Values shared by the whole sketch\<close>

text \<open>
  The sketch is one translation unit: \<open>setup\<close>, the three stage functions, the decoder
  \<open>ctcBeamSearchDecode\<close>, \<open>preprocessImage\<close> and \<open>loop\<close>.

  C \<open>int\<close> values are modelled as \<open>int\<close>; \<open>float\<close> values as \<open>real\<close>. The code only
  copies and compares the floats of the prediction grid, so the embedding keeps their
  order and nothing else (the finite floats order exactly as the reals they denote; not-a-number
  entries are outside the model). Reading an array outside its extent and signed overflow are
  undefined behaviour in C; the model returns a \<open>fault\<close> there instead of a value.
\<close>

datatype fault = PredictionsOutOfBounds | AlphabetOutOfBounds | FrameOutOfBounds
  | InputBufferOutOfBounds | IntOverflow

definition INT_MAX :: int where
  "INT_MAX = 2147483647"

section \<open>The character table\<close>

text \<open>
  \<open>const char* CHARACTERS = "0123456789ABCDEFGHIJKLMNOPQRSTUVWXYZ"; const int NUM_CHARACTERS = 36;\<close>
  Both are file-scope constants that the decoder reads. The embedding passes them to the
  decoder as arguments, and every run of the sketch's decoder is the run on \<open>CHARACTERS\<close>
  and \<open>NUM_CHARACTERS\<close>; class \<open>c\<close> is the character \<open>CHARACTERS[c - 1]\<close>, so class 1 is
  the character 0 and the letters start at class 11.
\<close>

definition CHARACTERS :: string where
  "CHARACTERS = ''0123456789ABCDEFGHIJKLMNOPQRSTUVWXYZ''"

definition NUM_CHARACTERS :: int where
  "NUM_CHARACTERS = 36"

section \<open>ctcBeamSearchDecode\<close>

text \<open>
  \<open>predictions[k]\<close>: a read of the float array at index \<open>k\<close>. An array on the 32-bit
  target has fewer than \<open>2^31\<close> elements, so an index inside the array is an \<open>int\<close>; an
  index computation that leaves the array (overflow included) is the fault.
\<close>

definition load :: "real list \<Rightarrow> int \<Rightarrow> fault + real" where
  "load predictions k =
     (if 0 \<le> k \<and> k < int (length predictions)
      then Inr (predictions ! nat k) else Inl PredictionsOutOfBounds)"

text \<open>\<open>CHARACTERS[k]\<close>: a read of the character table at index \<open>k\<close>.\<close>

definition char_at :: "string \<Rightarrow> int \<Rightarrow> fault + char" where
  "char_at chars k =
     (if 0 \<le> k \<and> k < int (length chars) then Inr (chars ! nat k) else Inl AlphabetOutOfBounds)"

text \<open>
  The inner loop \<open>for (int c = 1; c < num_classes; c++)\<close> of timestep \<open>i\<close>, entered with
  \<open>max_class = 0\<close> and \<open>max_prob = predictions[i * num_classes]\<close>. It returns the final
  \<open>max_class\<close>.
\<close>

function argmax_scan :: "real list \<Rightarrow> int \<Rightarrow> int \<Rightarrow> int \<Rightarrow> int \<Rightarrow> real \<Rightarrow> fault + int" where
  "argmax_scan predictions num_classes i c max_class max_prob =
     (if c < num_classes then
        (case load predictions (i * num_classes + c) of
           Inl e \<Rightarrow> Inl e
         | Inr v \<Rightarrow>
             if v > max_prob
             then argmax_scan predictions num_classes i (c + 1) c v
             else argmax_scan predictions num_classes i (c + 1) max_class max_prob)
      else Inr max_class)"
  by pat_completeness auto
termination
  by (relation "measure (\<lambda>(predictions, num_classes, i, c, max_class, max_prob). nat (num_classes - c))") auto

declare argmax_scan.simps [simp del]

text \<open>
  The argmax of timestep \<open>i\<close>: \<open>max_class = 0; max_prob = predictions[i * num_classes]\<close>
  followed by the inner loop.
\<close>

definition max_class_at :: "real list \<Rightarrow> int \<Rightarrow> int \<Rightarrow> fault + int" where
  "max_class_at predictions num_classes i =
     (case load predictions (i * num_classes) of
        Inl e \<Rightarrow> Inl e
      | Inr p0 \<Rightarrow> argmax_scan predictions num_classes i 1 0 p0)"

text \<open>
  The CTC rule of one timestep (the \<open>if (max_class != 0 && max_class != prev_class)\<close>
  block): the string \<open>result\<close> after the timestep. \<open>result += ch\<close> appends one character.
\<close>

definition ctc_rule :: "string \<Rightarrow> int \<Rightarrow> int \<Rightarrow> int \<Rightarrow> string \<Rightarrow> fault + string" where
  "ctc_rule chars num_chars prev_class max_class result =
     (if max_class \<noteq> 0 \<and> max_class \<noteq> prev_class then
        (if max_class - 1 < num_chars then
           (case char_at chars (max_class - 1) of
              Inl e \<Rightarrow> Inl e
            | Inr ch \<Rightarrow> Inr (result @ [ch]))
         else Inr result)
      else Inr result)"

text \<open>
  The body of the outer loop at timestep \<open>i\<close>, on the loop state
  \<open>(prev_class, result)\<close>: argmax, CTC rule, then \<open>prev_class = max_class\<close>.
\<close>

definition timestep ::
  "string \<Rightarrow> int \<Rightarrow> real list \<Rightarrow> int \<Rightarrow> int \<Rightarrow> int \<times> string \<Rightarrow> fault + int \<times> string" where
  "timestep chars num_chars predictions num_classes i st =
     (case max_class_at predictions num_classes i of
        Inl e \<Rightarrow> Inl e
      | Inr max_class \<Rightarrow>
         (case ctc_rule chars num_chars (fst st) max_class (snd st) of
            Inl e \<Rightarrow> Inl e
          | Inr result' \<Rightarrow> Inr (max_class, result')))"

text \<open>The outer loop \<open>for (int i = 0; i < seq_len; i++)\<close>, from timestep \<open>i\<close> on.\<close>

function decode_loop ::
  "string \<Rightarrow> int \<Rightarrow> real list \<Rightarrow> int \<Rightarrow> int \<Rightarrow> int \<Rightarrow> int \<times> string \<Rightarrow> fault + string" where
  "decode_loop chars num_chars predictions seq_len num_classes i st =
     (if i < seq_len then
        (case timestep chars num_chars predictions num_classes i st of
           Inl e \<Rightarrow> Inl e
         | Inr st' \<Rightarrow> decode_loop chars num_chars predictions seq_len num_classes (i + 1) st')
      else Inr (snd st))"
  by pat_completeness auto
termination
  by (relation "measure (\<lambda>(chars, num_chars, predictions, seq_len, num_classes, i, st).
        nat (seq_len - i))") auto

declare decode_loop.simps [simp del]

text \<open>\<open>String result = ""; int prev_class = -1;\<close> then the loop; \<open>return result\<close>.\<close>

definition ctcBeamSearchDecode :: "string \<Rightarrow> int \<Rightarrow> real list \<Rightarrow> int \<Rightarrow> int \<Rightarrow> fault + string" where
  "ctcBeamSearchDecode chars num_chars predictions seq_len num_classes =
     decode_loop chars num_chars predictions seq_len num_classes 0 (- 1, [])"

subsection \<open>The spec's vocabulary for the decoder\<close>

text \<open>
  The spec speaks of the class with maximum probability at a timestep. \<open>first_argmax r c\<close>:
  in the row \<open>r\<close>, column \<open>c\<close> holds the maximum and every earlier column is strictly
  smaller (the lowest column among ties). \<open>argmax_labels n p ls\<close>: the flat array \<open>p\<close>,
  read as consecutive rows of \<open>n\<close> columns, has at least \<open>length ls\<close> rows and the label of
  row \<open>t\<close> is \<open>ls ! t\<close>.
\<close>

definition first_argmax :: "real list \<Rightarrow> nat \<Rightarrow> bool" where
  "first_argmax r c \<longleftrightarrow>
     c < length r \<and> (\<forall>v \<in> set r. v \<le> r ! c) \<and> (\<forall>v \<in> set (take c r). v < r ! c)"

fun argmax_labels :: "nat \<Rightarrow> real list \<Rightarrow> nat list \<Rightarrow> bool" where
  "argmax_labels n p [] = True"
| "argmax_labels n p (l # ls) =
     (n \<le> length p \<and> first_argmax (take n p) l \<and> argmax_labels n (drop n p) ls)"

text \<open>
  The CTC rule run over a sequence of labels, each timestep handing its label to the next
  as \<open>prev_class\<close>: what the outer loop computes once the argmax of every row is known.
\<close>

fun ctc_labels :: "string \<Rightarrow> int \<Rightarrow> int \<Rightarrow> nat list \<Rightarrow> string \<Rightarrow> fault + string" where
  "ctc_labels chars num_chars prev_class [] result = Inr result"
| "ctc_labels chars num_chars prev_class (l # ls) result =
     (case ctc_rule chars num_chars prev_class (int l) result of
        Inl e \<Rightarrow> Inl e
      | Inr result' \<Rightarrow> ctc_labels chars num_chars (int l) ls result')"

section \<open>preprocessImage\<close>

text \<open>
  \<open>camera_fb_t\<close> is the driver's frame buffer: the fields the sketch reads are \<open>buf\<close>,
  \<open>len\<close>, \<open>width\<close> and \<open>height\<close> (all \<open>size_t\<close> but \<open>buf\<close>). \<open>len\<close> is a field of its
  own: nothing in the type ties it to \<open>width * height\<close> (a compressed frame is shorter).
\<close>

record camera_fb_t =
  buf :: "8 word list"
  len :: nat
  width :: nat
  height :: nat

definition OCR_INPUT_WIDTH :: int where
  "OCR_INPUT_WIDTH = 128"

definition OCR_INPUT_HEIGHT :: int where
  "OCR_INPUT_HEIGHT = 64"

text \<open>
  \<open>src_idx\<close> of output cell \<open>(x, y)\<close>: \<open>src_x = (x * src_width) / OCR_INPUT_WIDTH\<close>,
  \<open>src_y = (y * src_height) / OCR_INPUT_HEIGHT\<close>, \<open>src_idx = src_y * src_width + src_x\<close>, in
  \<open>int\<close> arithmetic. All operands are non-negative, so C's truncating division is \<open>div\<close>.
  A dimension or a product beyond \<open>INT_MAX\<close> is the fault \<open>IntOverflow\<close>.
\<close>

definition source_index :: "camera_fb_t \<Rightarrow> int \<Rightarrow> int \<Rightarrow> fault + int" where
  "source_index fb x y =
     (let src_width = int (width fb); src_height = int (height fb) in
      if src_width > INT_MAX \<or> src_height > INT_MAX
         \<or> x * src_width > INT_MAX \<or> y * src_height > INT_MAX
      then Inl IntOverflow
      else
        let src_x = (x * src_width) div OCR_INPUT_WIDTH;
            src_y = (y * src_height) div OCR_INPUT_HEIGHT
        in if src_y * src_width + src_x > INT_MAX then Inl IntOverflow
           else Inr (src_y * src_width + src_x))"

text \<open>
  The value written to output cell \<open>(x, y)\<close>: \<open>src_data[src_idx] / 255.0f\<close> when
  \<open>src_idx < fb->len\<close>, and \<open>0.0f\<close> otherwise. The quotient is kept exact (the code stores
  the float nearest to it, which is zero only for the byte 0).
\<close>

definition pixel :: "camera_fb_t \<Rightarrow> int \<Rightarrow> int \<Rightarrow> fault + real" where
  "pixel fb x y =
     (case source_index fb x y of
        Inl e \<Rightarrow> Inl e
      | Inr src_idx \<Rightarrow>
          if nat src_idx < len fb then
            (if nat src_idx < length (buf fb)
             then Inr (real (unat (buf fb ! nat src_idx)) / 255)
             else Inl FrameOutOfBounds)
          else Inr 0)"

text \<open>\<open>input_buffer[k] = v\<close>.\<close>

definition store :: "real list \<Rightarrow> int \<Rightarrow> real \<Rightarrow> fault + real list" where
  "store input_buffer k v =
     (if 0 \<le> k \<and> k < int (length input_buffer)
      then Inr (input_buffer[nat k := v]) else Inl InputBufferOutOfBounds)"

text \<open>The inner loop \<open>for (int x = 0; x < OCR_INPUT_WIDTH; x++)\<close> of row \<open>y\<close>, from \<open>x\<close> on.\<close>

function x_loop :: "camera_fb_t \<Rightarrow> int \<Rightarrow> int \<Rightarrow> real list \<Rightarrow> fault + real list" where
  "x_loop fb y x input_buffer =
     (if x < OCR_INPUT_WIDTH then
        (case pixel fb x y of
           Inl e \<Rightarrow> Inl e
         | Inr v \<Rightarrow>
            (case store input_buffer (y * OCR_INPUT_WIDTH + x) v of
               Inl e \<Rightarrow> Inl e
             | Inr input_buffer' \<Rightarrow> x_loop fb y (x + 1) input_buffer'))
      else Inr input_buffer)"
  by pat_completeness auto
termination
  by (relation "measure (\<lambda>(fb, y, x, input_buffer). nat (OCR_INPUT_WIDTH - x))") auto

declare x_loop.simps [simp del]

text \<open>The outer loop \<open>for (int y = 0; y < OCR_INPUT_HEIGHT; y++)\<close>, from \<open>y\<close> on.\<close>

function y_loop :: "camera_fb_t \<Rightarrow> int \<Rightarrow> real list \<Rightarrow> fault + real list" where
  "y_loop fb y input_buffer =
     (if y < OCR_INPUT_HEIGHT then
        (case x_loop fb y 0 input_buffer of
           Inl e \<Rightarrow> Inl e
         | Inr input_buffer' \<Rightarrow> y_loop fb (y + 1) input_buffer')
      else Inr input_buffer)"
  by pat_completeness auto
termination
  by (relation "measure (\<lambda>(fb, y, input_buffer). nat (OCR_INPUT_HEIGHT - y))") auto

declare y_loop.simps [simp del]

definition preprocessImage :: "camera_fb_t \<Rightarrow> real list \<Rightarrow> fault + real list" where
  "preprocessImage fb input_buffer = y_loop fb 0 input_buffer"

text \<open>
  A frame the loops can traverse without a fault: the index arithmetic stays in \<open>int\<close> and
  the driver's buffer really holds \<open>len\<close> bytes.
\<close>

definition frame_ok :: "camera_fb_t \<Rightarrow> bool" where
  "frame_ok fb \<longleftrightarrow>
     127 * int (width fb) \<le> INT_MAX \<and> 63 * int (height fb) \<le> INT_MAX
     \<and> int (width fb) * int (height fb) \<le> INT_MAX \<and> len fb \<le> length (buf fb)"

text \<open>
  The value of output cell \<open>(x, y)\<close> in closed form, for a frame that is \<open>frame_ok\<close>: the
  byte at \<open>src_idx\<close> scaled to \<open>[0, 1]\<close> when \<open>src_idx\<close> is below \<open>len\<close>, zero otherwise.
\<close>

definition stored_value :: "camera_fb_t \<Rightarrow> nat \<Rightarrow> nat \<Rightarrow> real" where
  "stored_value fb x y =
     (let src_idx = (y * height fb div 64) * width fb + x * width fb div 128
      in if src_idx < len fb then real (unat (buf fb ! src_idx)) / 255 else 0)"

text \<open>
  A frame whose \<open>len\<close> is shorter than \<open>width * height\<close>: a 320x240 capture delivered as
  four bytes of JPEG data (start and end markers), none of them zero.
\<close>

definition jpeg_frame :: camera_fb_t where
  "jpeg_frame = \<lparr>buf = [0xFF, 0xD8, 0xFF, 0xD9], len = 4, width = 320, height = 240\<rparr>"

section \<open>setup: loading the three models\<close>

text \<open>
  What the hardware and the TensorFlow Lite Micro library answer during \<open>setup\<close>: the
  status of \<open>esp_camera_init\<close> (\<open>ESP_OK\<close> is 0), the \<open>version()\<close> field of each model asset
  and whether each interpreter's \<open>AllocateTensors()\<close> returns \<open>kTfLiteOk\<close>.
\<close>

record setup_env =
  camera_init_err :: int
  detection_version :: "32 word"
  polygon_version :: "32 word"
  ocr_version :: "32 word"
  detection_alloc_ok :: bool
  polygon_alloc_ok :: bool
  ocr_alloc_ok :: bool

text \<open>Where \<open>setup\<close> returns: one constructor per \<open>return\<close>, and the fall-through at its end.\<close>

datatype setup_outcome =
    CameraInitFailed
  | DetectionSchemaMismatch
  | DetectionAllocationFailed
  | PolygonAllocationFailed
  | OcrAllocationFailed
  | AllModelsReady

text \<open>
  \<open>setup()\<close>, in the order of the source. \<open>TFLITE_SCHEMA_VERSION\<close> comes from the library's
  headers and is the argument \<open>schema_version\<close>.
\<close>

definition setup_fn :: "32 word \<Rightarrow> setup_env \<Rightarrow> setup_outcome" where
  "setup_fn schema_version env =
     (if camera_init_err env \<noteq> 0 then CameraInitFailed
      else if detection_version env \<noteq> schema_version then DetectionSchemaMismatch
      else if \<not> detection_alloc_ok env then DetectionAllocationFailed
      else if \<not> polygon_alloc_ok env then PolygonAllocationFailed
      else if \<not> ocr_alloc_ok env then OcrAllocationFailed
      else AllModelsReady)"

section \<open>loop: one frame through the three stages\<close>

record BoundingBox =
  x1 :: real
  y1 :: real
  x2 :: real
  y2 :: real
  confidence :: real

text \<open>\<open>struct Polygon { float x[4], y[4]; }\<close>: the two arrays as lists of four.\<close>

record Polygon =
  poly_x :: "real list"
  poly_y :: "real list"

datatype stage = DetectPlate | DetectPolygon | RecognizeCharacters

text \<open>
  What one iteration does to the outside world, in order. \<open>Call\<close> marks the entry into a
  stage function. \<open>Println\<close> is a line of fixed text (line breaks and the non-ASCII glyphs
  of the source left out); the other printing events carry the values that a
  \<open>Serial.printf\<close> formats. \<open>FbReturn\<close> is \<open>esp_camera_fb_return\<close> and \<open>Delay\<close> is
  \<open>delay\<close>, in milliseconds.
\<close>

datatype event =
    Call stage
  | Println string
  | ImageCaptured nat nat nat
  | PlateDetectedAt real real real real
  | DetectionConfidence real
  | Recognized string
  | LicensePlate string
  | Stage1Time "32 word"
  | Stage2Time "32 word"
  | Stage3Time "32 word"
  | TotalTime "32 word"
  | ConfidencePercent real
  | FreeHeap nat
  | FbReturn camera_fb_t
  | Delay nat

text \<open>
  The environment of one iteration: what \<open>esp_camera_fb_get\<close> returns (\<open>None\<close> for the null
  pointer), what the \<open>k\<close>-th call of \<open>millis()\<close> in the iteration returns, and what
  \<open>ESP.getFreeHeap()\<close> returns. The state threaded through the iteration is the trace of
  events so far and the number of \<open>millis()\<close> calls made.
\<close>

record loop_env =
  capture :: "camera_fb_t option"
  millis_at :: "nat \<Rightarrow> 32 word"
  free_heap :: nat

record world =
  trace :: "event list"
  clock_reads :: nat

definition emit :: "event list \<Rightarrow> world \<Rightarrow> world" where
  "emit es w = w\<lparr>trace := trace w @ es\<rparr>"

definition millis :: "loop_env \<Rightarrow> world \<Rightarrow> 32 word \<times> world" where
  "millis env w = (millis_at env (clock_reads w), w\<lparr>clock_reads := Suc (clock_reads w)\<rparr>)"

text \<open>
  Stage 1, the placeholder of the source: a fixed box relative to the frame, confidence
  0.95. The products are kept exact.
\<close>

definition detectPlate :: "camera_fb_t \<Rightarrow> world \<Rightarrow> BoundingBox \<times> world" where
  "detectPlate fb w =
     (let box = \<lparr>x1 = real (width fb) * 0.3, y1 = real (height fb) * 0.4,
                 x2 = real (width fb) * 0.7, y2 = real (height fb) * 0.6,
                 confidence = 0.95\<rparr>
      in (box, emit [Call DetectPlate,
                     Println ''[Stage 1] Detecting plate location...'',
                     PlateDetectedAt (x1 box) (y1 box) (x2 box) (y2 box),
                     DetectionConfidence (confidence box)] w))"

text \<open>Stage 2, the placeholder of the source: the four corners of the box.\<close>

definition detectPolygon :: "camera_fb_t \<Rightarrow> BoundingBox \<Rightarrow> world \<Rightarrow> Polygon \<times> world" where
  "detectPolygon fb box w =
     (let poly = \<lparr>poly_x = [x1 box, x2 box, x2 box, x1 box],
                  poly_y = [y1 box, y1 box, y2 box, y2 box]\<rparr>
      in (poly, emit [Call DetectPolygon,
                      Println ''[Stage 2] Detecting corner points...'',
                      Println ''  Corner points detected''] w))"

text \<open>Stage 3, the placeholder of the source: the fixed text \<open>ABC1234\<close>.\<close>

definition recognizeCharacters :: "camera_fb_t \<Rightarrow> Polygon \<Rightarrow> world \<Rightarrow> string \<times> world" where
  "recognizeCharacters fb poly w =
     (let plate_text = ''ABC1234''
      in (plate_text, emit [Call RecognizeCharacters,
                            Println ''[Stage 3] Recognizing characters...'',
                            Recognized plate_text] w))"

text \<open>
  \<open>loop()\<close> from the confidence test on (\<open>if (plate_box.confidence < 0.5)\<close> to the end),
  for the box that stage 1 returned, with \<open>total_start\<close> and \<open>stage1_time\<close> already
  measured. Stage 1 of the source always answers 0.95; the test is
  written for any box, and so is this function.
\<close>

definition loop_after_detection ::
  "loop_env \<Rightarrow> camera_fb_t \<Rightarrow> 32 word \<Rightarrow> 32 word \<Rightarrow> BoundingBox \<Rightarrow> world \<Rightarrow> world" where
  "loop_after_detection env fb total_start stage1_time plate_box w0 =
     (if confidence plate_box < 0.5 then
        emit [Println ''No license plate detected'', FbReturn fb, Delay 2000] w0
      else
        let (stage2_start, w1) = millis env w0;
            (plate_polygon, w2) = detectPolygon fb plate_box w1;
            (stage2_end, w3) = millis env w2;
            stage2_time = stage2_end - stage2_start;
            (stage3_start, w4) = millis env w3;
            (plate_number, w5) = recognizeCharacters fb plate_polygon w4;
            (stage3_end, w6) = millis env w5;
            stage3_time = stage3_end - stage3_start;
            (total_end, w7) = millis env w6;
            total_time = total_end - total_start
        in emit [Println ''------------------------------------------------------------'',
                 Println ''=== RECOGNITION COMPLETE ==='',
                 Println ''------------------------------------------------------------'',
                 LicensePlate plate_number,
                 Println ''Timing Breakdown:'',
                 Stage1Time stage1_time,
                 Stage2Time stage2_time,
                 Stage3Time stage3_time,
                 Println ''  -----------------------------'',
                 TotalTime total_time,
                 ConfidencePercent (confidence plate_box * 100),
                 FreeHeap (free_heap env),
                 Println ''============================================================'',
                 FbReturn fb,
                 Delay 3000] w7)"

text \<open>\<open>loop()\<close>: one iteration.\<close>

definition loop :: "loop_env \<Rightarrow> world \<Rightarrow> world" where
  "loop env w0 =
     (case capture env of
        None \<Rightarrow> emit [Println ''Camera capture FAILED'', Delay 1000] w0
      | Some fb \<Rightarrow>
          let w1 = emit [Println ''============================================================'',
                         Println ''=== AUTOMATIC LICENSE PLATE RECOGNITION ==='',
                         Println ''============================================================'',
                         ImageCaptured (width fb) (height fb) (len fb)] w0;
              (total_start, w2) = millis env w1;
              (stage1_start, w3) = millis env w2;
              (plate_box, w4) = detectPlate fb w3;
              (stage1_end, w5) = millis env w4;
              stage1_time = stage1_end - stage1_start
          in loop_after_detection env fb total_start stage1_time plate_box w5)"

text \<open>Readings of a trace: the frame releases, the stage calls and the reported durations.\<close>

fun is_release :: "event \<Rightarrow> bool" where
  "is_release (FbReturn fb) = True"
| "is_release e = False"

fun is_call :: "event \<Rightarrow> bool" where
  "is_call (Call s) = True"
| "is_call e = False"

fun is_duration :: "event \<Rightarrow> bool" where
  "is_duration (Stage1Time t) = True"
| "is_duration (Stage2Time t) = True"
| "is_duration (Stage3Time t) = True"
| "is_duration (TotalTime t) = True"
| "is_duration e = False"

definition releases :: "world \<Rightarrow> event list" where
  "releases w = filter is_release (trace w)"

definition calls :: "world \<Rightarrow> event list" where
  "calls w = filter is_call (trace w)"

definition durations :: "world \<Rightarrow> event list" where
  "durations w = filter is_duration (trace w)"

text \<open>
  The gate in the spec's words: with a configured \<open>detectionThreshold\<close>, a frame is
  reported as not found when the confidence is below it.
\<close>

definition spec_not_found :: "real \<Rightarrow> real \<Rightarrow> bool" where
  "spec_not_found detectionThreshold conf \<longleftrightarrow> conf < detectionThreshold"

text \<open>
  Inputs for the examples: a QVGA grayscale frame, a box of confidence 0.3 and one of
  confidence 0.7, a clock that advances 10 ms between two readings, and the empty trace.
\<close>

definition qvga :: camera_fb_t where
  "qvga = \<lparr>buf = replicate 76800 0, len = 76800, width = 320, height = 240\<rparr>"

definition low_box :: BoundingBox where
  "low_box = \<lparr>x1 = 96, y1 = 96, x2 = 224, y2 = 144, confidence = 3 / 10\<rparr>"

definition mid_box :: BoundingBox where
  "mid_box = \<lparr>x1 = 96, y1 = 96, x2 = 224, y2 = 144, confidence = 7 / 10\<rparr>"

definition env0 :: loop_env where
  "env0 = \<lparr>capture = Some qvga, millis_at = (\<lambda>k. 10 * of_nat k), free_heap = 100000\<rparr>"

definition w_init :: world where
  "w_init = \<lparr>trace = [], clock_reads = 0\<rparr>"

section \<open>Properties of the decoder\<close>

subsection \<open>The inner loop finds the first maximum of the row\<close>

lemma first_argmax_less:
  assumes "first_argmax r y" "x < y"
  shows "r ! x < r ! y"
proof -
  from assms have "y < length r" by (simp add: first_argmax_def)
  with assms(2) have "x < length (take y r)" "take y r ! x = r ! x" by simp_all
  then have "r ! x \<in> set (take y r)" by (metis nth_mem)
  with assms(1) show ?thesis by (simp add: first_argmax_def)
qed

lemma first_argmax_unique:
  assumes "first_argmax r a" "first_argmax r b"
  shows "a = b"
proof (rule ccontr)
  assume "a \<noteq> b"
  then consider "a < b" | "b < a" by linarith
  then show False
  proof cases
    case 1
    from first_argmax_less [OF assms(2) 1] assms(1,2) show False
      by (simp add: first_argmax_def leD)
  next
    case 2
    from first_argmax_less [OF assms(1) 2] assms(1,2) show False
      by (simp add: first_argmax_def leD)
  qed
qed

lemma load_row:
  assumes "0 \<le> i" "nat i * n + n \<le> length p" "j < n"
  shows "load p (i * int n + int j) = Inr (take n (drop (nat i * n) p) ! j)"
proof -
  have e: "i * int n + int j = int (nat i * n + j)" using assms by simp
  have lt: "nat i * n + j < length p" using assms by linarith
  have "load p (int (nat i * n + j)) = Inr (p ! (nat i * n + j))"
    unfolding load_def using lt by (simp only: nat_int of_nat_less_iff of_nat_0_le_iff if_True simp_thms)
  moreover have "take n (drop (nat i * n) p) ! j = p ! (nat i * n + j)"
    using assms by simp
  ultimately show ?thesis unfolding e by simp
qed

lemma first_argmax_step_gt:
  assumes "first_argmax (take c r) mc" "c < length r" "r ! c > r ! mc"
  shows "first_argmax (take (Suc c) r) c"
proof -
  from assms(1,2) have mc: "mc < c" by (simp add: first_argmax_def)
  then have e: "take c r ! mc = r ! mc" by simp
  from assms(1) have le: "\<forall>v \<in> set (take c r). v \<le> r ! mc"
    unfolding first_argmax_def e by simp
  have t: "take (Suc c) r = take c r @ [r ! c]"
    using assms(2) by (simp add: take_Suc_conv_app_nth)
  have n: "(take c r @ [r ! c]) ! c = r ! c" "take c (take c r @ [r ! c]) = take c r"
    using assms(2) by (simp_all add: nth_append)
  show ?thesis unfolding first_argmax_def t n
    using le assms(2,3) by fastforce
qed

lemma first_argmax_step_le:
  assumes "first_argmax (take c r) mc" "c < length r" "\<not> r ! c > r ! mc"
  shows "first_argmax (take (Suc c) r) mc"
proof -
  from assms(1,2) have mc: "mc < c" by (simp add: first_argmax_def)
  then have e: "take c r ! mc = r ! mc" by simp
  from assms(1) have le: "\<forall>v \<in> set (take c r). v \<le> r ! mc"
    and lt: "\<forall>v \<in> set (take mc (take c r)). v < r ! mc"
    unfolding first_argmax_def e by simp_all
  have t: "take (Suc c) r = take c r @ [r ! c]"
    using assms(2) by (simp add: take_Suc_conv_app_nth)
  have n: "(take c r @ [r ! c]) ! mc = r ! mc" "take mc (take c r @ [r ! c]) = take mc (take c r)"
    using assms(2) mc by (simp_all add: nth_append)
  show ?thesis unfolding first_argmax_def t n
    using le lt assms(2,3) mc by fastforce
qed

lemma scan_row:
  assumes "0 \<le> i" "nat i * n + n \<le> length p"
  shows "c \<le> n \<Longrightarrow> first_argmax (take c (take n (drop (nat i * n) p))) mc \<Longrightarrow>
         \<exists>m. argmax_scan p (int n) i (int c) (int mc) (take n (drop (nat i * n) p) ! mc) = Inr (int m)
            \<and> first_argmax (take n (drop (nat i * n) p)) m"
proof (induction "n - c" arbitrary: c mc)
  case 0
  then have "c = n" by simp
  with 0 assms show ?case by (subst argmax_scan.simps) simp
next
  case (Suc k)
  let ?r = "take n (drop (nat i * n) p)"
  have len: "length ?r = n" using assms by simp
  from Suc have cn: "c < n" by simp
  have ld: "load p (i * int n + int c) = Inr (?r ! c)" using load_row [OF assms cn] .
  have k: "k = n - Suc c" using Suc by simp
  show ?case
  proof (cases "?r ! c > ?r ! mc")
    case True
    have "first_argmax (take (Suc c) ?r) c"
      using first_argmax_step_gt [OF Suc.prems(2) _ True] cn len by simp
    from Suc.hyps(1) [OF k _ this] cn
    obtain m where "argmax_scan p (int n) i (int (Suc c)) (int c) (?r ! c) = Inr (int m)"
      "first_argmax ?r m" by auto
    then show ?thesis using True cn ld
      by (subst argmax_scan.simps) (simp add: add.commute)
  next
    case False
    have "first_argmax (take (Suc c) ?r) mc"
      using first_argmax_step_le [OF Suc.prems(2) _ False] cn len by simp
    from Suc.hyps(1) [OF k _ this] cn
    obtain m where "argmax_scan p (int n) i (int (Suc c)) (int mc) (?r ! mc) = Inr (int m)"
      "first_argmax ?r m" by auto
    then show ?thesis using False cn ld
      by (subst argmax_scan.simps) (simp add: add.commute)
  qed
qed


lemma max_class_at_row:
  assumes "0 \<le> i" "nat i * n + n \<le> length p" "first_argmax (take n (drop (nat i * n) p)) l"
  shows "max_class_at p (int n) i = Inr (int l)"
proof -
  let ?r = "take n (drop (nat i * n) p)"
  have len: "length ?r = n" using assms(2) by simp
  with assms(3) have n0: "0 < n" by (simp add: first_argmax_def)
  from load_row [OF assms(1,2) n0] have ld: "load p (i * int n) = Inr (?r ! 0)" by simp
  have "first_argmax (take 1 ?r) 0"
    using n0 len by (cases ?r) (simp_all add: first_argmax_def)
  from scan_row [OF assms(1,2) _ this] n0
  obtain m where m: "argmax_scan p (int n) i 1 0 (?r ! 0) = Inr (int m)" "first_argmax ?r m"
    by auto
  from first_argmax_unique [OF m(2) assms(3)] m(1) ld show ?thesis
    by (simp add: max_class_at_def)
qed

lemma decode_loop_labels:
  "argmax_labels n (drop (k * n) p) ls \<Longrightarrow>
   decode_loop chars num_chars p (int (k + length ls)) (int n) (int k) (prev, res)
     = ctc_labels chars num_chars prev ls res"
proof (induction ls arbitrary: k prev res)
  case Nil
  show ?case by (subst decode_loop.simps) simp
next
  case (Cons l ls)
  from Cons.prems have le: "n \<le> length p - k * n"
    and a: "first_argmax (take n (drop (nat (int k) * n) p)) l"
    and r: "argmax_labels n (drop (Suc k * n) p) ls"
    by (simp_all add: add.commute)
  from a have "0 < n" by (auto simp: first_argmax_def)
  with le have b: "nat (int k) * n + n \<le> length p" by simp
  have m: "max_class_at p (int n) (int k) = Inr (int l)"
    by (rule max_class_at_row [OF _ b a]) simp
  have step: "timestep chars num_chars p (int n) (int k) (prev, res) =
      (case ctc_rule chars num_chars prev (int l) res of
         Inl e \<Rightarrow> Inl e | Inr r' \<Rightarrow> Inr (int l, r'))"
    by (simp add: timestep_def m)
  show ?case
  proof (cases "ctc_rule chars num_chars prev (int l) res")
    case (Inl e)
    then show ?thesis by (subst decode_loop.simps) (simp add: step)
  next
    case (Inr r')
    have "decode_loop chars num_chars p (int (k + length (l # ls))) (int n) (int k) (prev, res)
        = decode_loop chars num_chars p (int (k + length (l # ls))) (int n) (int k + 1) (int l, r')"
      by (subst decode_loop.simps) (simp add: step Inr)
    also have "\<dots> = decode_loop chars num_chars p (int (Suc k + length ls)) (int n) (int (Suc k)) (int l, r')"
      by (simp add: add.commute)
    also have "\<dots> = ctc_labels chars num_chars (int l) ls r'"
      by (rule Cons.IH [OF r])
    finally show ?thesis by (simp add: Inr)
  qed
qed

lemma decode_labels:
  assumes "argmax_labels n p ls"
  shows "ctcBeamSearchDecode chars num_chars p (int (length ls)) (int n)
           = ctc_labels chars num_chars (- 1) ls []"
  using decode_loop_labels [of n 0 p ls chars num_chars "- 1" "[]"] assms
  by (simp add: ctcBeamSearchDecode_def)

subsection \<open>Decoding by labels\<close>

lemma ctc_labels_blank:
  "ctc_labels chars num_chars prev (replicate T 0) res = Inr res"
  by (induction T arbitrary: prev) (simp_all add: ctc_rule_def)

lemma ctc_labels_collapsed:
  assumes "num_chars \<le> int (length chars)"
  shows "distinct_adj ls \<Longrightarrow> \<forall>l \<in> set ls. 1 \<le> l \<and> int l \<le> num_chars \<Longrightarrow>
         (ls \<noteq> [] \<longrightarrow> int (hd ls) \<noteq> prev) \<Longrightarrow>
         ctc_labels chars num_chars prev ls res = Inr (res @ map (\<lambda>l. chars ! (l - 1)) ls)"
proof (induction ls arbitrary: prev res)
  case Nil
  show ?case by simp
next
  case (Cons l ls)
  from Cons.prems(2) have l: "1 \<le> l" "int l \<le> num_chars" by simp_all
  with assms have c: "char_at chars (int l - 1) = Inr (chars ! (l - 1))"
    by (simp add: char_at_def nat_diff_distrib')
  from Cons.prems(3) l have r: "ctc_rule chars num_chars prev (int l) res = Inr (res @ [chars ! (l - 1)])"
    by (simp add: ctc_rule_def c)
  have "ctc_labels chars num_chars (int l) ls (res @ [chars ! (l - 1)])
          = Inr ((res @ [chars ! (l - 1)]) @ map (\<lambda>l. chars ! (l - 1)) ls)"
  proof (rule Cons.IH)
    show "distinct_adj ls" using Cons.prems(1) by (cases ls) simp_all
    show "\<forall>l \<in> set ls. 1 \<le> l \<and> int l \<le> num_chars" using Cons.prems(2) by simp
    show "ls \<noteq> [] \<longrightarrow> int (hd ls) \<noteq> int l" using Cons.prems(1) by (cases ls) simp_all
  qed
  then show ?case by (simp add: r)
qed

subsection \<open>Faults of the decoder\<close>

lemma argmax_scan_nonneg:
  "argmax_scan p n i c mc mp = Inr m \<Longrightarrow> 0 \<le> c \<Longrightarrow> 0 \<le> mc \<Longrightarrow> 0 \<le> m"
proof (induction p n i c mc mp rule: argmax_scan.induct)
  case (1 p n i c mc mp)
  show ?case
  proof (cases "c < n")
    case False
    with "1.prems" show ?thesis by (simp add: argmax_scan.simps)
  next
    case True
    show ?thesis
    proof (cases "load p (i * n + c)")
      case (Inl e)
      with True "1.prems"(1) show ?thesis by (simp add: argmax_scan.simps)
    next
      case (Inr v)
      show ?thesis
      proof (cases "v > mp")
        case gt: True
        with True Inr "1.prems"(1) have "argmax_scan p n i (c + 1) c v = Inr m"
          by (subst (asm) argmax_scan.simps) simp
        from "1.IH"(1) [OF True Inr gt this] "1.prems" show ?thesis by simp
      next
        case le: False
        with True Inr "1.prems"(1) have "argmax_scan p n i (c + 1) mc mp = Inr m"
          by (subst (asm) argmax_scan.simps) simp
        from "1.IH"(2) [OF True Inr le this] "1.prems" show ?thesis by simp
      qed
    qed
  qed
qed

lemma max_class_at_nonneg: "max_class_at p n i = Inr m \<Longrightarrow> 0 \<le> m"
  by (auto simp: max_class_at_def split: sum.splits dest: argmax_scan_nonneg)

lemma ctc_rule_shipped_table:
  "0 \<le> m \<Longrightarrow> ctc_rule CHARACTERS NUM_CHARACTERS prev m res \<noteq> Inl e"
  by (simp add: ctc_rule_def char_at_def CHARACTERS_def NUM_CHARACTERS_def)

lemma load_fault: "load p k = Inl e \<Longrightarrow> e = PredictionsOutOfBounds"
  by (simp add: load_def split: if_splits)

lemma argmax_scan_fault:
  "argmax_scan p n i c mc mp = Inl e \<Longrightarrow> e = PredictionsOutOfBounds"
proof (induction p n i c mc mp rule: argmax_scan.induct)
  case (1 p n i c mc mp)
  show ?case
  proof (cases "c < n")
    case False
    with "1.prems" show ?thesis by (simp add: argmax_scan.simps)
  next
    case True
    show ?thesis
    proof (cases "load p (i * n + c)")
      case (Inl e')
      with True "1.prems" have "e = e'" by (simp add: argmax_scan.simps)
      with Inl show ?thesis by (simp add: load_fault)
    next
      case (Inr v)
      show ?thesis
      proof (cases "v > mp")
        case gt: True
        with True Inr "1.prems" have "argmax_scan p n i (c + 1) c v = Inl e"
          by (subst (asm) argmax_scan.simps) simp
        from "1.IH"(1) [OF True Inr gt this] show ?thesis .
      next
        case le: False
        with True Inr "1.prems" have "argmax_scan p n i (c + 1) mc mp = Inl e"
          by (subst (asm) argmax_scan.simps) simp
        from "1.IH"(2) [OF True Inr le this] show ?thesis .
      qed
    qed
  qed
qed

lemma max_class_at_fault: "max_class_at p n i = Inl e \<Longrightarrow> e = PredictionsOutOfBounds"
  by (auto simp: max_class_at_def split: sum.splits dest: argmax_scan_fault load_fault)

lemma timestep_shipped_table:
  "timestep CHARACTERS NUM_CHARACTERS p n i st \<noteq> Inl AlphabetOutOfBounds"
proof (cases "max_class_at p n i")
  case (Inl e)
  with max_class_at_fault [OF Inl] show ?thesis by (simp add: timestep_def)
next
  case (Inr m)
  from max_class_at_nonneg [OF Inr] have "0 \<le> m" .
  from ctc_rule_shipped_table [OF this] Inr show ?thesis
    by (simp add: timestep_def split: sum.splits)
qed

lemma decode_loop_shipped_table:
  "decode_loop CHARACTERS NUM_CHARACTERS p seq_len n i st \<noteq> Inl AlphabetOutOfBounds"
proof (induction CHARACTERS NUM_CHARACTERS p seq_len n i st rule: decode_loop.induct)
  case (1 p seq_len n i st)
  show ?case
  proof (cases "i < seq_len")
    case False
    then show ?thesis by (simp add: decode_loop.simps)
  next
    case True
    show ?thesis
    proof (cases "timestep CHARACTERS NUM_CHARACTERS p n i st")
      case (Inl e)
      with timestep_shipped_table [of p n i st] True show ?thesis
        by (subst decode_loop.simps) simp
    next
      case (Inr st')
      from "1.hyps" [OF True Inr] True Inr show ?thesis
        by (subst decode_loop.simps) simp
    qed
  qed
qed

lemma class_37_row_0: "max_class_at (replicate 37 0 @ [1] @ replicate 37 0 @ [1]) 38 0 = Inr 37"
  using max_class_at_row [of 0 38 "replicate 37 0 @ [1] @ replicate 37 0 @ [1]" 37]
  by (simp add: first_argmax_def nth_append)

lemma class_37_row_1: "max_class_at (replicate 37 0 @ [1] @ replicate 37 0 @ [1]) 38 1 = Inr 37"
  using max_class_at_row [of 1 38 "replicate 37 0 @ [1] @ replicate 37 0 @ [1]" 37]
  by (simp add: first_argmax_def nth_append)

subsection \<open>Claims about the decoder\<close>

text \<open>
  C2, as stated, fails. The decoder reads the shipped table, in which class 1 is the
  character 0 and class 2 the character 1 (the letters start at class 11). On a grid whose
  argmax labels are 0,1,1,0,2,2,0 it returns \<open>01\<close>, not \<open>AB\<close>, and on a grid whose labels
  are 1,1,1 it returns \<open>0\<close>, not \<open>A\<close>. Both runs are evaluated step by step.
\<close>

theorem shipped_table_decodes_01:
  "argmax_labels 3 [1, 0, 0,  0, 1, 0,  0, 1, 0,  1, 0, 0,  0, 0, 1,  0, 0, 1,  1, 0, 0]
     [0, 1, 1, 0, 2, 2, 0]
   \<and> ctcBeamSearchDecode CHARACTERS NUM_CHARACTERS
         [1, 0, 0,  0, 1, 0,  0, 1, 0,  1, 0, 0,  0, 0, 1,  0, 0, 1,  1, 0, 0] 7 3 = Inr ''01''
   \<and> ctcBeamSearchDecode CHARACTERS NUM_CHARACTERS
         [1, 0, 0,  0, 1, 0,  0, 1, 0,  1, 0, 0,  0, 0, 1,  0, 0, 1,  1, 0, 0] 7 3 \<noteq> Inr ''AB''
   \<and> argmax_labels 3 [0, 1, 0,  0, 1, 0,  0, 1, 0] [1, 1, 1]
   \<and> ctcBeamSearchDecode CHARACTERS NUM_CHARACTERS [0, 1, 0,  0, 1, 0,  0, 1, 0] 3 3 = Inr ''0''
   \<and> ctcBeamSearchDecode CHARACTERS NUM_CHARACTERS [0, 1, 0,  0, 1, 0,  0, 1, 0] 3 3 \<noteq> Inr ''A''"
  by (simp add: first_argmax_def ctcBeamSearchDecode_def decode_loop.simps timestep_def
      max_class_at_def argmax_scan.simps load_def ctc_rule_def char_at_def
      CHARACTERS_def NUM_CHARACTERS_def)

text \<open>
  C2, amended. Greedy collapse over the shipped table \<open>0123456789ABCDEFGHIJKLMNOPQRSTUVWXYZ\<close>
  (class 1 is the character 0, class 2 the character 1): every grid whose argmax labels
  are 0,1,1,0,2,2,0 decodes to \<open>01\<close>; every grid whose labels are 1,1,1 decodes to \<open>0\<close>;
  every grid whose labels are all blank decodes to the empty string.
\<close>

theorem ctc_greedy_collapse_shipped:
  assumes "argmax_labels n p [0, 1, 1, 0, 2, 2, 0]"
    and "argmax_labels m q [1, 1, 1]"
    and "argmax_labels k r (replicate T 0)"
  shows "ctcBeamSearchDecode CHARACTERS NUM_CHARACTERS p 7 (int n) = Inr ''01''
       \<and> ctcBeamSearchDecode CHARACTERS NUM_CHARACTERS q 3 (int m) = Inr ''0''
       \<and> ctcBeamSearchDecode CHARACTERS NUM_CHARACTERS r (int T) (int k) = Inr []"
proof (intro conjI)
  show "ctcBeamSearchDecode CHARACTERS NUM_CHARACTERS p 7 (int n) = Inr ''01''"
    using decode_labels [OF assms(1), of CHARACTERS NUM_CHARACTERS]
    by (simp add: ctc_rule_def char_at_def CHARACTERS_def NUM_CHARACTERS_def)
  show "ctcBeamSearchDecode CHARACTERS NUM_CHARACTERS q 3 (int m) = Inr ''0''"
    using decode_labels [OF assms(2), of CHARACTERS NUM_CHARACTERS]
    by (simp add: ctc_rule_def char_at_def CHARACTERS_def NUM_CHARACTERS_def)
  show "ctcBeamSearchDecode CHARACTERS NUM_CHARACTERS r (int T) (int k) = Inr []"
    using decode_labels [OF assms(3), of CHARACTERS NUM_CHARACTERS]
    by (simp add: ctc_labels_blank)
qed

theorem ctc_greedy_collapse_shipped_witness:
  "argmax_labels 3 [1, 0, 0,  0, 1, 0,  0, 1, 0,  1, 0, 0,  0, 0, 1,  0, 0, 1,  1, 0, 0] [0, 1, 1, 0, 2, 2, 0]
   \<and> argmax_labels 3 [0, 1, 0,  0, 1, 0,  0, 1, 0] [1, 1, 1]
   \<and> argmax_labels 3 [1, 0, 0,  1, 0, 0] (replicate 2 0)
   \<and> ctcBeamSearchDecode CHARACTERS NUM_CHARACTERS
         [1, 0, 0,  0, 1, 0,  0, 1, 0,  1, 0, 0,  0, 0, 1,  0, 0, 1,  1, 0, 0] 7 3 = Inr ''01''
   \<and> ctcBeamSearchDecode CHARACTERS NUM_CHARACTERS [0, 1, 0,  0, 1, 0,  0, 1, 0] 3 3 = Inr ''0''
   \<and> ctcBeamSearchDecode CHARACTERS NUM_CHARACTERS [1, 0, 0,  1, 0, 0] 2 3 = Inr []"
  using ctc_greedy_collapse_shipped [of 3
     "[1, 0, 0,  0, 1, 0,  0, 1, 0,  1, 0, 0,  0, 0, 1,  0, 0, 1,  1, 0, 0]"
     3 "[0, 1, 0,  0, 1, 0,  0, 1, 0]" 3 "[1, 0, 0,  1, 0, 0]" 2]
  by (simp add: first_argmax_def numeral_2_eq_2)

text \<open>
  C7, as stated, fails in the characters it names: on a grid whose argmax labels are
  1,0,1 the decoder returns \<open>00\<close>, the shipped table's character of class 1 twice, not
  \<open>AA\<close>. The run is evaluated step by step.
\<close>

theorem shipped_table_decodes_00:
  "argmax_labels 3 [0, 1, 0,  1, 0, 0,  0, 1, 0] [1, 0, 1]
   \<and> ctcBeamSearchDecode CHARACTERS NUM_CHARACTERS [0, 1, 0,  1, 0, 0,  0, 1, 0] 3 3 = Inr ''00''
   \<and> ctcBeamSearchDecode CHARACTERS NUM_CHARACTERS [0, 1, 0,  1, 0, 0,  0, 1, 0] 3 3 \<noteq> Inr ''AA''"
  by (simp add: first_argmax_def ctcBeamSearchDecode_def decode_loop.simps timestep_def
      max_class_at_def argmax_scan.simps load_def ctc_rule_def char_at_def
      CHARACTERS_def NUM_CHARACTERS_def)

text \<open>
  C7, amended. A blank between two emissions of the same class keeps both: every grid
  whose argmax labels are 1,0,1 decodes to two characters, \<open>00\<close> over the shipped table
  (class 1 is the character 0).
\<close>

theorem ctc_blank_separates_shipped:
  assumes "argmax_labels n p [1, 0, 1]"
  shows "ctcBeamSearchDecode CHARACTERS NUM_CHARACTERS p 3 (int n) = Inr ''00''"
  using decode_labels [OF assms, of CHARACTERS NUM_CHARACTERS]
  by (simp add: ctc_rule_def char_at_def CHARACTERS_def NUM_CHARACTERS_def)

theorem ctc_blank_separates_shipped_witness:
  "argmax_labels 3 [0, 1, 0,  1, 0, 0,  0, 1, 0] [1, 0, 1]
   \<and> ctcBeamSearchDecode CHARACTERS NUM_CHARACTERS [0, 1, 0,  1, 0, 0,  0, 1, 0] 3 3 = Inr ''00''"
  using ctc_blank_separates_shipped [of 3 "[0, 1, 0,  1, 0, 0,  0, 1, 0]"]
  by (simp add: first_argmax_def)

text \<open>
  C8. Decoding an already collapsed string gives it back: when the grid has one row per
  character of \<open>s\<close>, each row's argmax is the (non-blank) class of that character, and no
  two adjacent rows have the same class, the decoder returns \<open>s\<close>.
\<close>

theorem ctc_collapsed_unchanged:
  assumes "argmax_labels n p ls" "distinct_adj ls"
    "\<forall>l \<in> set ls. 1 \<le> l \<and> int l \<le> num_chars" "num_chars \<le> int (length chars)"
    "s = map (\<lambda>l. chars ! (l - 1)) ls"
  shows "ctcBeamSearchDecode chars num_chars p (int (length ls)) (int n) = Inr s"
proof -
  have "ls \<noteq> [] \<longrightarrow> int (hd ls) \<noteq> - 1" by simp
  from ctc_labels_collapsed [OF assms(4,2,3) this, of "[]"] decode_labels [OF assms(1), of chars num_chars]
  show ?thesis by (simp add: assms(5))
qed

theorem ctc_collapsed_unchanged_witness:
  "argmax_labels 37 (replicate 11 0 @ [1] @ replicate 25 0 @ replicate 12 0 @ [1] @ replicate 24 0
                      @ replicate 11 0 @ [1] @ replicate 25 0) [11, 12, 11]
   \<and> distinct_adj [11, 12, 11::nat]
   \<and> list_all (\<lambda>l. 1 \<le> l \<and> int l \<le> NUM_CHARACTERS) [11, 12, 11::nat]
   \<and> NUM_CHARACTERS \<le> int (length CHARACTERS)
   \<and> ''ABA'' = map (\<lambda>l. CHARACTERS ! (l - 1)) [11, 12, 11]
   \<and> ctcBeamSearchDecode CHARACTERS NUM_CHARACTERS
        (replicate 11 0 @ [1] @ replicate 25 0 @ replicate 12 0 @ [1] @ replicate 24 0
                      @ replicate 11 0 @ [1] @ replicate 25 0) 3 37 = Inr ''ABA''"
  using ctc_collapsed_unchanged [of 37 "replicate 11 0 @ [1] @ replicate 25 0 @ replicate 12 0 @ [1] @ replicate 24 0
                      @ replicate 11 0 @ [1] @ replicate 25 0" "[11, 12, 11]" NUM_CHARACTERS CHARACTERS "''ABA''"]
  by (simp add: first_argmax_def NUM_CHARACTERS_def CHARACTERS_def nth_append)


text \<open>
  C9. With the shipped 36-entry table, a timestep whose argmax class \<open>c\<close> is non-blank,
  differs from the previous class and has \<open>c - 1 \<ge> 36\<close> appends nothing and leaves
  \<open>prev_class = c\<close>; a next timestep with the same class then appends nothing either; and
  no run of the decoder reads the table outside its extent.
\<close>

theorem ctc_class_beyond_table:
  assumes "max_class_at p n i = Inr c" "c \<noteq> 0" "c \<noteq> prev" "36 \<le> c - 1"
  shows "timestep CHARACTERS NUM_CHARACTERS p n i (prev, res) = Inr (c, res)
         \<and> (max_class_at p n (i + 1) = Inr c \<longrightarrow>
              timestep CHARACTERS NUM_CHARACTERS p n (i + 1) (c, res) = Inr (c, res))
         \<and> ctcBeamSearchDecode CHARACTERS NUM_CHARACTERS p seq_len n \<noteq> Inl AlphabetOutOfBounds"
  using assms decode_loop_shipped_table [of p seq_len n 0 "(- 1, [])"]
  by (simp add: timestep_def ctc_rule_def NUM_CHARACTERS_def ctcBeamSearchDecode_def)

theorem ctc_class_beyond_table_witness:
  "max_class_at (replicate 37 0 @ [1] @ replicate 37 0 @ [1]) 38 0 = Inr 37
   \<and> (37::int) \<noteq> 0 \<and> (37::int) \<noteq> - 1 \<and> (36::int) \<le> 37 - 1
   \<and> timestep CHARACTERS NUM_CHARACTERS (replicate 37 0 @ [1] @ replicate 37 0 @ [1]) 38 0 (- 1, []) = Inr (37, [])
   \<and> timestep CHARACTERS NUM_CHARACTERS (replicate 37 0 @ [1] @ replicate 37 0 @ [1]) 38 1 (37, []) = Inr (37, [])
   \<and> ctcBeamSearchDecode CHARACTERS NUM_CHARACTERS (replicate 37 0 @ [1] @ replicate 37 0 @ [1]) 2 38 \<noteq> Inl AlphabetOutOfBounds"
  using ctc_class_beyond_table [of "replicate 37 0 @ [1] @ replicate 37 0 @ [1]" 38 0 37 "- 1" "[]" 2] class_37_row_0 class_37_row_1
  by simp

text \<open>
  C10. The decoder is a function of the grid's labels under the tie rule of the scan: for a
  row inside the array the scan returns the lowest column that holds the maximum, and two
  grids with the same labels decode to the same result.
\<close>

theorem ctc_first_maximum:
  "(0 \<le> i \<and> 0 < n \<and> nat i * n + n \<le> length p \<longrightarrow>
      (\<exists>m. max_class_at p (int n) i = Inr (int m) \<and> first_argmax (take n (drop (nat i * n) p)) m))
   \<and> (argmax_labels n p ls \<and> argmax_labels n q ls \<longrightarrow>
        ctcBeamSearchDecode chars num_chars p (int (length ls)) (int n)
          = ctcBeamSearchDecode chars num_chars q (int (length ls)) (int n))"
proof (intro conjI impI)
  assume a: "0 \<le> i \<and> 0 < n \<and> nat i * n + n \<le> length p"
  let ?r = "take n (drop (nat i * n) p)"
  from a have i: "0 \<le> i" and b: "nat i * n + n \<le> length p" and n0: "0 < n" by simp_all
  from b have len: "length ?r = n" by simp
  from load_row [OF i b n0] have ld: "load p (i * int n) = Inr (?r ! 0)" by simp
  have "first_argmax (take 1 ?r) 0"
    using n0 len by (cases ?r) (simp_all add: first_argmax_def)
  from scan_row [OF i b _ this] n0
  obtain m where "argmax_scan p (int n) i 1 0 (?r ! 0) = Inr (int m)" "first_argmax ?r m"
    by auto
  with ld show "\<exists>m. max_class_at p (int n) i = Inr (int m) \<and> first_argmax ?r m"
    by (auto simp: max_class_at_def)
next
  assume "argmax_labels n p ls \<and> argmax_labels n q ls"
  then show "ctcBeamSearchDecode chars num_chars p (int (length ls)) (int n)
          = ctcBeamSearchDecode chars num_chars q (int (length ls)) (int n)"
    by (simp add: decode_labels)
qed

theorem ctc_first_maximum_witness:
  "(0::int) \<le> 0 \<and> (0::nat) < 3 \<and> nat 0 * 3 + 3 \<le> length [2/5, 2/5, 1/5 :: real]
   \<and> max_class_at [2/5, 2/5, 1/5] 3 0 = Inr 0
   \<and> argmax_labels 3 [2/5, 2/5, 1/5] [0] \<and> argmax_labels 3 [1/2, 1/4, 1/4] [0]
   \<and> ctcBeamSearchDecode CHARACTERS NUM_CHARACTERS [2/5, 2/5, 1/5] 1 3
       = ctcBeamSearchDecode CHARACTERS NUM_CHARACTERS [1/2, 1/4, 1/4] 1 3"
proof -
  have l: "argmax_labels 3 [2/5, 2/5, 1/5] [0]" "argmax_labels 3 [1/2, 1/4, 1/4] [0]"
    by (simp_all add: first_argmax_def)
  have m: "m = 0" if "first_argmax [2/5, 2/5, 1/5] m" for m
    using that by (auto simp: first_argmax_def less_Suc_eq numeral_3_eq_3)
  from ctc_first_maximum [of 0 3 "[2/5, 2/5, 1/5]" "[0]" "[1/2, 1/4, 1/4]" CHARACTERS NUM_CHARACTERS] l m
  show ?thesis by auto
qed

section \<open>Properties of preprocessImage\<close>

lemma source_index_ok:
  assumes "frame_ok fb" "x < 128" "y < 64"
  shows "source_index fb (int x) (int y)
           = Inr (int ((y * height fb div 64) * width fb + x * width fb div 128))"
proof -
  let ?w = "width fb" and ?h = "height fb"
  from assms(1) have w: "127 * int ?w \<le> INT_MAX" and h: "63 * int ?h \<le> INT_MAX"
    and wh: "int ?w * int ?h \<le> INT_MAX"
    by (simp_all add: frame_ok_def)
  have imax: "0 \<le> INT_MAX" by (simp add: INT_MAX_def)
  from w have w1: "int ?w \<le> INT_MAX" by linarith
  from h have h1: "int ?h \<le> INT_MAX" by linarith
  have "int x * int ?w \<le> 127 * int ?w" using assms(2) by (intro mult_right_mono) simp_all
  with w have xw: "int x * int ?w \<le> INT_MAX" by linarith
  have "int y * int ?h \<le> 63 * int ?h" using assms(3) by (intro mult_right_mono) simp_all
  with h have yh: "int y * int ?h \<le> INT_MAX" by linarith
  have sx: "x * ?w div 128 \<le> x * ?w" by simp
  have idx: "(y * ?h div 64) * ?w + x * ?w div 128 \<le> nat INT_MAX"
  proof (cases "?h = 0 \<or> ?w = 0")
    case True
    then show ?thesis
    proof
      assume "?h = 0"
      moreover have "x * ?w \<le> nat INT_MAX" using xw imax by (metis nat_mono nat_int of_nat_mult)
      ultimately show ?thesis using sx by simp
    next
      assume "?w = 0"
      then show ?thesis by simp
    qed
  next
    case False
    then have hp: "0 < ?h" and wp: "0 < ?w" by simp_all
    have "y * ?h < 64 * ?h" using assms(3) hp by simp
    then have "y * ?h div 64 < ?h" by (simp add: less_mult_imp_div_less mult.commute)
    then have "y * ?h div 64 \<le> ?h - 1" by simp
    then have a: "(y * ?h div 64) * ?w \<le> (?h - 1) * ?w" by (rule mult_le_mono1)
    have "x * ?w < 128 * ?w" using assms(2) wp by simp
    then have "x * ?w div 128 < ?w" by (simp add: less_mult_imp_div_less mult.commute)
    with a have "(y * ?h div 64) * ?w + x * ?w div 128 < (?h - 1) * ?w + ?w" by linarith
    also have "\<dots> = ?h * ?w" using hp by (simp add: algebra_simps)
    finally have "int ((y * ?h div 64) * ?w + x * ?w div 128) < int ?w * int ?h"
      by (metis of_nat_less_iff of_nat_mult mult.commute)
    with wh show ?thesis by linarith
  qed
  have e1: "int x * int ?w div 128 = int (x * ?w div 128)" by (simp add: zdiv_int)
  have e2: "int y * int ?h div 64 = int (y * ?h div 64)" by (simp add: zdiv_int)
  have e3: "int (y * ?h div 64) * int ?w + int (x * ?w div 128)
              = int ((y * ?h div 64) * ?w + x * ?w div 128)" by simp
  from idx imax have le: "int ((y * ?h div 64) * ?w + x * ?w div 128) \<le> INT_MAX" by linarith
  show ?thesis
    unfolding source_index_def Let_def OCR_INPUT_WIDTH_def OCR_INPUT_HEIGHT_def e1 e2 e3
    using w1 h1 xw yh le by (simp only: not_less [symmetric] simp_thms if_False)
qed

lemma pixel_ok:
  assumes "frame_ok fb" "x < 128" "y < 64"
  shows "pixel fb (int x) (int y) = Inr (stored_value fb x y)"
proof -
  from assms(1) have "len fb \<le> length (buf fb)" by (simp add: frame_ok_def)
  then show ?thesis
    unfolding pixel_def source_index_ok [OF assms] stored_value_def Let_def
    by (simp del: of_nat_add of_nat_mult)
qed


lemma store_ok:
  "k < length b \<Longrightarrow> store b (int k) v = Inr (b[k := v])"
  by (simp add: store_def)

lemma x_loop_step:
  "x < OCR_INPUT_WIDTH \<Longrightarrow> pixel fb x y = Inr v \<Longrightarrow>
   store b (y * OCR_INPUT_WIDTH + x) v = Inr b' \<Longrightarrow>
   x_loop fb y x b = x_loop fb y (x + 1) b'"
  by (subst x_loop.simps) simp

lemma y_loop_step:
  "y < OCR_INPUT_HEIGHT \<Longrightarrow> x_loop fb y 0 b = Inr b' \<Longrightarrow>
   y_loop fb y b = y_loop fb (y + 1) b'"
  by (subst y_loop.simps) simp

lemma x_loop_cells:
  assumes "frame_ok fb" "y < 64"
  shows "x \<le> 128 \<Longrightarrow> y * 128 + 128 \<le> length b \<Longrightarrow>
         \<exists>out. x_loop fb (int y) (int x) b = Inr out \<and> length out = length b
           \<and> (\<forall>k < length b. out ! k =
                 (if y * 128 + x \<le> k \<and> k < y * 128 + 128
                  then stored_value fb (k - y * 128) y else b ! k))"
proof (induction "128 - x" arbitrary: x b)
  case 0
  then have "x = 128" by simp
  then show ?case by (subst x_loop.simps) (simp add: OCR_INPUT_WIDTH_def)
next
  case (Suc d)
  then have x: "x < 128" by simp
  let ?v = "stored_value fb x y"
  let ?b = "b[y * 128 + x := ?v]"
  have px: "pixel fb (int x) (int y) = Inr ?v" by (rule pixel_ok [OF assms(1) x assms(2)])
  have "y * 128 + x < length b" using Suc.prems(2) x by simp
  then have "store b (int (y * 128 + x)) ?v = Inr ?b" by (rule store_ok)
  moreover have "int y * OCR_INPUT_WIDTH + int x = int (y * 128 + x)"
    by (simp add: OCR_INPUT_WIDTH_def)
  ultimately have st: "store b (int y * OCR_INPUT_WIDTH + int x) ?v = Inr ?b"
    by (simp only:)
  have "int x < OCR_INPUT_WIDTH" using x by (simp add: OCR_INPUT_WIDTH_def)
  from x_loop_step [OF this px st]
  have step: "x_loop fb (int y) (int x) b = x_loop fb (int y) (int (Suc x)) ?b"
    by (simp add: add.commute)
  have d: "d = 128 - Suc x" using Suc.hyps(2) by simp
  from Suc.hyps(1) [OF d, of ?b] x Suc.prems(2)
  obtain out where out: "x_loop fb (int y) (int (Suc x)) ?b = Inr out" "length out = length ?b"
    "\<forall>k < length ?b. out ! k =
        (if y * 128 + Suc x \<le> k \<and> k < y * 128 + 128
         then stored_value fb (k - y * 128) y else ?b ! k)"
    by auto
  have "out ! k = (if y * 128 + x \<le> k \<and> k < y * 128 + 128
                  then stored_value fb (k - y * 128) y else b ! k)" if k: "k < length b" for k
  proof (cases "k = y * 128 + x")
    case True
    with out(3) k x show ?thesis by simp
  next
    case False
    with out(3) k show ?thesis by auto
  qed
  with out(1,2) step show ?case by simp
qed

lemma y_loop_cells:
  assumes "frame_ok fb"
  shows "y \<le> 64 \<Longrightarrow> 8192 \<le> length b \<Longrightarrow>
         \<exists>out. y_loop fb (int y) b = Inr out \<and> length out = length b
           \<and> (\<forall>k < length b. out ! k =
                 (if y * 128 \<le> k \<and> k < 8192
                  then stored_value fb (k mod 128) (k div 128) else b ! k))"
proof (induction "64 - y" arbitrary: y b)
  case 0
  then have "y = 64" by simp
  then show ?case by (subst y_loop.simps) (simp add: OCR_INPUT_HEIGHT_def)
next
  case (Suc d)
  then have y: "y < 64" by simp
  then have fit: "y * 128 + 128 \<le> length b" using Suc.prems(2) by simp
  from x_loop_cells [OF assms y _ fit, of 0]
  obtain row where row: "x_loop fb (int y) 0 b = Inr row" "length row = length b"
    "\<forall>k < length b. row ! k =
        (if y * 128 \<le> k \<and> k < y * 128 + 128 then stored_value fb (k - y * 128) y else b ! k)"
    by auto
  have "int y < OCR_INPUT_HEIGHT" using y by (simp add: OCR_INPUT_HEIGHT_def)
  from y_loop_step [OF this, of fb b row] row(1)
  have step: "y_loop fb (int y) b = y_loop fb (int (Suc y)) row"
    by (simp add: add.commute)
  have d: "d = 64 - Suc y" using Suc.hyps(2) by simp
  from Suc.hyps(1) [OF d, of row] y Suc.prems(2) row(2)
  obtain out where out: "y_loop fb (int (Suc y)) row = Inr out" "length out = length row"
    "\<forall>k < length row. out ! k =
        (if Suc y * 128 \<le> k \<and> k < 8192
         then stored_value fb (k mod 128) (k div 128) else row ! k)"
    by auto
  have "out ! k = (if y * 128 \<le> k \<and> k < 8192
                  then stored_value fb (k mod 128) (k div 128) else b ! k)" if k: "k < length b" for k
  proof (cases "y * 128 \<le> k \<and> k < y * 128 + 128")
    case True
    then have dv: "k div 128 = y" by (intro div_nat_eqI) simp_all
    then have md: "k mod 128 = k - y * 128" by (simp add: modulo_nat_def)
    from True y have "k < 8192" by simp
    with out(3) row(2,3) k True dv md show ?thesis by simp
  next
    case False
    with out(3) row(2,3) k show ?thesis by auto
  qed
  with out(1,2) row(2) step show ?case by simp
qed


lemma preprocess_cells:
  assumes "frame_ok fb" "8192 \<le> length input_buffer"
  shows "\<exists>out. preprocessImage fb input_buffer = Inr out \<and> length out = length input_buffer
           \<and> (\<forall>x < 128. \<forall>y < 64. out ! (y * 128 + x) = stored_value fb x y)
           \<and> (\<forall>k < length input_buffer. 8192 \<le> k \<longrightarrow> out ! k = input_buffer ! k)"
proof -
  from y_loop_cells [OF assms(1) _ assms(2), of 0]
  obtain out where out: "y_loop fb 0 input_buffer = Inr out" "length out = length input_buffer"
    "\<forall>k < length input_buffer. out ! k =
        (if k < 8192 then stored_value fb (k mod 128) (k div 128) else input_buffer ! k)"
    by auto
  have "out ! (y * 128 + x) = stored_value fb x y" if "x < 128" "y < 64" for x y
  proof -
    from that have "y * 128 + x < 8192" "(y * 128 + x) mod 128 = x" "(y * 128 + x) div 128 = y"
      by simp_all
    with out(3) assms(2) show ?thesis by simp
  qed
  with out show ?thesis by (auto simp: preprocessImage_def)
qed

lemma jpeg_frame_ok: "frame_ok jpeg_frame"
  by (simp add: frame_ok_def jpeg_frame_def INT_MAX_def)

lemma jpeg_values: "stored_value jpeg_frame 127 63 = 0" "stored_value jpeg_frame 0 0 = 1"
  by (simp_all add: stored_value_def jpeg_frame_def)

text \<open>
  C3, as stated, fails. The frame \<open>jpeg_frame\<close> holds no zero byte, yet the run on it returns
  and output cell \<open>(127, 63)\<close> is zero: its source index 75837 is not below \<open>len = 4\<close>, and
  the \<open>else\<close> branch stores \<open>0.0f\<close>. Nothing is clamped.
\<close>

theorem preprocess_writes_zero:
  "\<not> isl (preprocessImage jpeg_frame (replicate 8192 1))
   \<and> projr (preprocessImage jpeg_frame (replicate 8192 1)) ! (63 * 128 + 127) = 0
   \<and> 0 \<notin> set (buf jpeg_frame)"
proof -
  from preprocess_cells [OF jpeg_frame_ok, of "replicate 8192 1"]
  obtain out where out: "preprocessImage jpeg_frame (replicate 8192 1) = Inr out"
    "\<forall>x < 128. \<forall>y < 64. out ! (y * 128 + x) = stored_value jpeg_frame x y"
    by auto
  from out(2) [rule_format, of 127 63] jpeg_values(1)
  have "out ! (63 * 128 + 127) = 0" by simp
  with out(1) show ?thesis by (simp add: jpeg_frame_def)
qed

text \<open>
  C3, amended. For a frame whose index arithmetic fits \<open>int\<close> and whose buffer holds
  \<open>len\<close> bytes, and an output buffer of at least 128 * 64 floats, \<open>preprocessImage\<close> returns,
  and every output cell \<open>(x, y)\<close> holds the source byte at
  \<open>src_idx = (y * height / 64) * width + (x * width / 128)\<close> divided by 255 when
  \<open>src_idx < len\<close>, and zero when \<open>src_idx\<close> is outside the buffer.
\<close>

theorem preprocess_source_or_zero:
  assumes "frame_ok fb" "8192 \<le> length input_buffer"
  shows "\<exists>out. preprocessImage fb input_buffer = Inr out \<and> length out = length input_buffer
           \<and> (\<forall>x < 128. \<forall>y < 64. out ! (y * 128 + x) = stored_value fb x y)"
  using preprocess_cells [OF assms] by blast

theorem preprocess_source_or_zero_witness:
  "frame_ok jpeg_frame \<and> 8192 \<le> length (replicate 8192 (1::real))
   \<and> (\<exists>out. preprocessImage jpeg_frame (replicate 8192 1) = Inr out \<and> length out = 8192
        \<and> out ! (0 * 128 + 0) = 1 \<and> out ! (63 * 128 + 127) = 0)"
proof -
  have h: "frame_ok jpeg_frame" "8192 \<le> length (replicate 8192 (1::real))"
    by (simp_all add: jpeg_frame_ok)
  from preprocess_source_or_zero [OF h]
  obtain out where out: "preprocessImage jpeg_frame (replicate 8192 1) = Inr out"
    "length out = 8192"
    "\<forall>x < 128. \<forall>y < 64. out ! (y * 128 + x) = stored_value jpeg_frame x y"
    by auto
  from out(3) [rule_format, of 0 0] out(3) [rule_format, of 127 63] jpeg_values
  have "out ! (0 * 128 + 0) = 1" "out ! (63 * 128 + 127) = 0" by simp_all
  with out(1,2) h show ?thesis by simp
qed

section \<open>Properties of setup\<close>

lemma setup_ignores_versions:
  "setup_fn sv (env\<lparr>polygon_version := a, ocr_version := b\<rparr>) = setup_fn sv env"
  by (simp add: setup_fn_def)

text \<open>
  C4. The claim asks for a version check on each of the three assets. \<open>setup\<close> compares
  only the detection model's version with \<open>TFLITE_SCHEMA_VERSION\<close>; the polygon and the OCR
  model are handed to their interpreters unchecked. With the library's schema version 3:
  a polygon model of version 2, or an OCR model of version 2, still reaches
  ``All Models Ready'', while a detection model of version 2 stops \<open>setup\<close>.
\<close>

theorem setup_skips_version_checks:
  "setup_fn 3 \<lparr>camera_init_err = 0, detection_version = 3, polygon_version = 2, ocr_version = 3,
      detection_alloc_ok = True, polygon_alloc_ok = True, ocr_alloc_ok = True\<rparr> = AllModelsReady
   \<and> setup_fn 3 \<lparr>camera_init_err = 0, detection_version = 3, polygon_version = 3, ocr_version = 2,
      detection_alloc_ok = True, polygon_alloc_ok = True, ocr_alloc_ok = True\<rparr> = AllModelsReady
   \<and> setup_fn 3 \<lparr>camera_init_err = 0, detection_version = 2, polygon_version = 3, ocr_version = 3,
      detection_alloc_ok = True, polygon_alloc_ok = True, ocr_alloc_ok = True\<rparr> = DetectionSchemaMismatch"
  by (simp add: setup_fn_def)

section \<open>Properties of loop\<close>

lemma releases_emit: "releases (emit es w) = releases w @ filter is_release es"
  by (simp add: releases_def emit_def)
lemma calls_emit: "calls (emit es w) = calls w @ filter is_call es"
  by (simp add: calls_def emit_def)
lemma durations_emit: "durations (emit es w) = durations w @ filter is_duration es"
  by (simp add: durations_def emit_def)
lemma trace_millis: "trace (snd (millis env w)) = trace w"
  by (simp add: millis_def)
lemma readings_millis [simp]: "releases (snd (millis env w)) = releases w"
  "calls (snd (millis env w)) = calls w" "durations (snd (millis env w)) = durations w"
  by (simp_all add: releases_def calls_def durations_def millis_def)

lemma releases_after:
  "releases (loop_after_detection env fb ts s1 box w) = releases w @ [FbReturn fb]"
  by (simp add: loop_after_detection_def detectPolygon_def recognizeCharacters_def
      releases_emit split_beta Let_def)


lemma calls_after_low:
  "confidence box < 0.5 \<Longrightarrow> calls (loop_after_detection env fb ts s1 box w) = calls w"
  by (simp add: loop_after_detection_def calls_emit)

lemma trace_after_low:
  "confidence box < 0.5 \<Longrightarrow>
   trace (loop_after_detection env fb ts s1 box w)
     = trace w @ [Println ''No license plate detected'', FbReturn fb, Delay 2000]"
  by (simp add: loop_after_detection_def emit_def)

lemma calls_after_high:
  "\<not> confidence box < 0.5 \<Longrightarrow>
   calls (loop_after_detection env fb ts s1 box w)
     = calls w @ [Call DetectPolygon, Call RecognizeCharacters]"
  by (simp add: loop_after_detection_def detectPolygon_def recognizeCharacters_def
      calls_emit split_beta Let_def)

lemma durations_after_low:
  "confidence box < 0.5 \<Longrightarrow> durations (loop_after_detection env fb ts s1 box w) = durations w"
  by (simp add: loop_after_detection_def durations_emit)

lemma durations_after_high:
  "\<not> confidence box < 0.5 \<Longrightarrow>
   durations (loop_after_detection env fb ts s1 box w)
     = durations w @
       [Stage1Time s1,
        Stage2Time (millis_at env (clock_reads w + 1) - millis_at env (clock_reads w)),
        Stage3Time (millis_at env (clock_reads w + 3) - millis_at env (clock_reads w + 2)),
        TotalTime (millis_at env (clock_reads w + 4) - ts)]"
  by (simp add: loop_after_detection_def detectPolygon_def recognizeCharacters_def
      durations_def split_beta Let_def millis_def emit_def numeral_eq_Suc)

lemma loop_durations:
  "capture env = Some fb \<Longrightarrow>
   durations (loop env w) = durations w @
     [Stage1Time (millis_at env (clock_reads w + 2) - millis_at env (clock_reads w + 1)),
      Stage2Time (millis_at env (clock_reads w + 4) - millis_at env (clock_reads w + 3)),
      Stage3Time (millis_at env (clock_reads w + 6) - millis_at env (clock_reads w + 5)),
      TotalTime (millis_at env (clock_reads w + 7) - millis_at env (clock_reads w))]"
  by (simp add: loop_def loop_after_detection_def detectPlate_def detectPolygon_def
      recognizeCharacters_def durations_def split_beta Let_def millis_def emit_def numeral_eq_Suc)

text \<open>
  C1. An iteration that obtained a frame buffer calls \<open>esp_camera_fb_return\<close> on that
  buffer exactly once: the releases of the iteration are that single call, for \<open>loop\<close> as a
  whole and on both paths after detection (not found, and success), whatever the box.
\<close>

theorem loop_releases_frame_once:
  assumes "capture env = Some fb"
  shows "releases (loop env w) = releases w @ [FbReturn fb]
       \<and> (\<forall>total_start stage1_time plate_box w'.
            releases (loop_after_detection env fb total_start stage1_time plate_box w')
              = releases w' @ [FbReturn fb])"
  using assms
  by (simp add: loop_def releases_after detectPlate_def releases_emit split_beta Let_def)

theorem loop_releases_frame_once_witness:
  "capture env0 = Some qvga \<and> releases (loop env0 w_init) = [FbReturn qvga]
   \<and> releases (loop_after_detection env0 qvga 0 10 low_box w_init) = [FbReturn qvga]
   \<and> releases (loop_after_detection env0 qvga 0 10 mid_box w_init) = [FbReturn qvga]"
  using loop_releases_frame_once [of env0 qvga w_init]
  by (simp add: env0_def w_init_def releases_def)

text \<open>
  C5, as stated, fails in its last part: the threshold is not a parameter. Were it
  configurable, a setting of 0.8 would report a frame of confidence 0.7 as not found; the
  code compares with the literal 0.5 and runs both later stages on that frame.
\<close>

theorem configured_threshold_ignored:
  "spec_not_found (8 / 10) (confidence mid_box)
   \<and> calls (loop_after_detection env0 qvga 0 10 mid_box w_init)
        = [Call DetectPolygon, Call RecognizeCharacters]"
  using calls_after_high [of mid_box env0 qvga 0 10 w_init]
  by (simp add: spec_not_found_def mid_box_def w_init_def calls_def)

text \<open>
  C5, amended. When the box of stage 1 has confidence below 0.5, the iteration prints the
  not-found line, returns the frame once and waits: \<open>detectPolygon\<close> and
  \<open>recognizeCharacters\<close> are not called. The threshold is the literal 0.5 of \<open>loop\<close>:
  every box with confidence 0.5 or more goes through both later stages.
\<close>

theorem loop_gate_fixed_at_half:
  "(confidence plate_box < 0.5 \<longrightarrow>
      trace (loop_after_detection env fb total_start stage1_time plate_box w)
        = trace w @ [Println ''No license plate detected'', FbReturn fb, Delay 2000]
      \<and> calls (loop_after_detection env fb total_start stage1_time plate_box w) = calls w
      \<and> releases (loop_after_detection env fb total_start stage1_time plate_box w)
          = releases w @ [FbReturn fb])
   \<and> (\<not> confidence plate_box < 0.5 \<longrightarrow>
      calls (loop_after_detection env fb total_start stage1_time plate_box w)
        = calls w @ [Call DetectPolygon, Call RecognizeCharacters])"
  by (simp add: trace_after_low calls_after_low calls_after_high releases_after)

theorem loop_gate_fixed_at_half_witness:
  "confidence low_box < 0.5
   \<and> trace (loop_after_detection env0 qvga 0 10 low_box w_init)
       = [Println ''No license plate detected'', FbReturn qvga, Delay 2000]
   \<and> calls (loop_after_detection env0 qvga 0 10 low_box w_init) = []
   \<and> releases (loop_after_detection env0 qvga 0 10 low_box w_init) = [FbReturn qvga]
   \<and> \<not> confidence mid_box < 0.5
   \<and> calls (loop_after_detection env0 qvga 0 10 mid_box w_init)
       = [Call DetectPolygon, Call RecognizeCharacters]"
  using loop_gate_fixed_at_half [of low_box env0 qvga 0 10 w_init] loop_gate_fixed_at_half [of mid_box env0 qvga 0 10 w_init]
  by (simp add: low_box_def mid_box_def w_init_def calls_def releases_def)

text \<open>
  C6, as stated, fails on the early abort: for a box of confidence 0.3 the iteration
  reports no duration at all, although \<open>stage1_time\<close> was measured.
\<close>

theorem abort_reports_no_durations:
  "confidence low_box < 0.5 \<and> durations (loop_after_detection env0 qvga 0 10 low_box w_init) = []"
  using durations_after_low [of low_box env0 qvga 0 10 w_init]
  by (simp add: low_box_def w_init_def durations_def)

text \<open>
  C6, amended. When the confidence is 0.5 or more, the report holds the three stage
  durations and the total, each the difference of two \<open>millis()\<close> readings in \<open>uint32_t\<close>
  arithmetic; when the confidence is below 0.5, the iteration reports no duration.
\<close>

theorem durations_reported_on_success_only:
  "(\<not> confidence plate_box < 0.5 \<longrightarrow>
      durations (loop_after_detection env fb total_start stage1_time plate_box w)
        = durations w @
          [Stage1Time stage1_time,
           Stage2Time (millis_at env (clock_reads w + 1) - millis_at env (clock_reads w)),
           Stage3Time (millis_at env (clock_reads w + 3) - millis_at env (clock_reads w + 2)),
           TotalTime (millis_at env (clock_reads w + 4) - total_start)])
   \<and> (confidence plate_box < 0.5 \<longrightarrow>
      durations (loop_after_detection env fb total_start stage1_time plate_box w) = durations w)"
  by (simp add: durations_after_low durations_after_high)

theorem durations_reported_on_success_only_witness:
  "\<not> confidence mid_box < 0.5
   \<and> durations (loop_after_detection env0 qvga 0 10 mid_box w_init)
       = [Stage1Time 10, Stage2Time 10, Stage3Time 10, TotalTime 40]
   \<and> confidence low_box < 0.5
   \<and> durations (loop_after_detection env0 qvga 0 10 low_box w_init) = []"
  using durations_reported_on_success_only [of mid_box env0 qvga 0 10 w_init] durations_reported_on_success_only [of low_box env0 qvga 0 10 w_init]
  by (simp add: low_box_def mid_box_def w_init_def durations_def env0_def)

end
